theory Spec2Isabelle
  imports Main
begin

section \<open>Time, errors and the deferred-callback primitive\<close>

text \<open>
  A \<^verbatim>\<open>datetime\<close> is a point in time and a \<^verbatim>\<open>timedelta\<close> a signed span, both
  counted in whole microseconds, the resolution of Python's \<^verbatim>\<open>datetime\<close> module.
  Every method call is one atomic step that reads a single clock value \<open>now\<close>; time only
  passes between calls. The calendar range of \<^verbatim>\<open>datetime\<close> is not modelled.
\<close>

type_synonym datetime = int
type_synonym timedelta = int

datatype py_error = AttributeError | RuntimeError | ValueError | IndexError | TypeError
  | OverflowError

text \<open>
  \<^verbatim>\<open>threading.Timer\<close>, as used by \<^verbatim>\<open>SimpleTimer\<close>. The object waits \<open>interval\<close> on
  its event \<^verbatim>\<open>finished\<close> once started; if the event is still unset when the wait is over
  it calls its function and then sets the event. \<^verbatim>\<open>cancel()\<close> sets the event. A thread
  can be started once only.
\<close>

record py_thread =
  interval :: timedelta
  t_started :: bool
  t_finished :: bool
  t_ran :: bool
  deadline :: datetime

definition Timer :: "timedelta \<Rightarrow> py_thread" where
  "Timer i = \<lparr>interval = i, t_started = False, t_finished = False, t_ran = False, deadline = 0\<rparr>"

definition Timer_start :: "datetime \<Rightarrow> py_thread \<Rightarrow> py_error + py_thread" where
  "Timer_start now th =
     (if t_started th then Inl RuntimeError
      else Inr (th\<lparr>t_started := True, deadline := now + interval th\<rparr>))"

definition Timer_cancel :: "py_thread \<Rightarrow> py_thread" where
  "Timer_cancel th = th\<lparr>t_finished := True\<rparr>"

text \<open>The wait of a started thread is over and nobody has set its event.\<close>

definition due :: "datetime \<Rightarrow> py_thread \<Rightarrow> bool" where
  "due now th \<longleftrightarrow> t_started th \<and> \<not> t_ran th \<and> \<not> t_finished th \<and> deadline th \<le> now"

text \<open>A thread still waiting for its deadline: its function may yet be called.\<close>

definition pending :: "py_thread \<Rightarrow> bool" where
  "pending th \<longleftrightarrow> t_started th \<and> \<not> t_ran th \<and> \<not> t_finished th"

text \<open>
  The body of \<^verbatim>\<open>Timer.run\<close> after the call of the function: the event is set unless the
  function raised.
\<close>

definition Timer_ran :: "bool \<Rightarrow> py_thread \<Rightarrow> py_thread" where
  "Timer_ran raised th = th\<lparr>t_ran := True, t_finished := (if raised then t_finished th else True)\<rparr>"

section \<open>SimpleTimer\<close>

text \<open>
  The attributes of a \<^verbatim>\<open>SimpleTimer\<close>. \<open>duration\<close> keeps the float as given (type \<open>'d\<close>),
  \<open>action\<close> the callable (type \<open>'f\<close>, \<open>None\<close> as in Python) and \<open>args\<close> its arguments.
  \<open>time_remaining_attr\<close> is the private attribute \<^verbatim>\<open>__time_remaining\<close>, which does not
  exist (\<open>None\<close>) until \<^verbatim>\<open>pause\<close> has assigned it.
\<close>

record ('d, 'f, 'a) SimpleTimer =
  title :: string
  duration :: 'd
  started :: bool
  paused :: bool
  finished :: bool
  action :: "'f option"
  args :: "'a list"
  creation_time :: datetime
  end_time :: datetime
  time_remaining_attr :: "timedelta option"

text \<open>
  A timer together with the \<^verbatim>\<open>threading.Timer\<close> objects made for it: \<open>cur\<close> is the one
  the private attribute \<^verbatim>\<open>__timer\<close> refers to, \<open>orphans\<close> are those \<^verbatim>\<open>resume\<close> has
  replaced (they stay alive as threads), and \<open>calls\<close> lists the calls of the action so
  far: the callable, the timer it was given and the further arguments.
\<close>

record ('d, 'f, 'a) tstate =
  self :: "('d, 'f, 'a) SimpleTimer"
  cur :: py_thread
  orphans :: "py_thread list"
  calls :: "('f \<times> ('d, 'f, 'a) SimpleTimer \<times> 'a list) list"

text \<open>
  \<^verbatim>\<open>__init__\<close>. \<open>delta\<close> is \<^verbatim>\<open>timedelta(seconds=duration)\<close>, and also the interval of the
  thread; \<open>args\<close> is \<^verbatim>\<open>args or []\<close>.
\<close>

definition init ::
  "string \<Rightarrow> 'd \<Rightarrow> timedelta \<Rightarrow> 'f option \<Rightarrow> 'a list option \<Rightarrow> datetime \<Rightarrow> ('d, 'f, 'a) tstate" where
  "init ttl d delta act as now =
     \<lparr>self = \<lparr>title = ttl, duration = d, started = False, paused = False, finished = False,
               action = act, args = (case as of None \<Rightarrow> [] | Some xs \<Rightarrow> xs),
               creation_time = now, end_time = now + delta, time_remaining_attr = None\<rparr>,
      cur = Timer delta, orphans = [], calls = []\<rparr>"

definition time_remaining :: "datetime \<Rightarrow> ('d, 'f, 'a) SimpleTimer \<Rightarrow> py_error + timedelta" where
  "time_remaining now t =
     (if finished t then Inr 0
      else if paused t then
        (case time_remaining_attr t of None \<Rightarrow> Inl AttributeError | Some r \<Rightarrow> Inr r)
      else Inr (end_time t - now))"

text \<open>
  The methods return the exception raised, if any, and the state they leave behind:
  what was assigned before the exception stays assigned.
\<close>

definition start :: "datetime \<Rightarrow> ('d, 'f, 'a) tstate \<Rightarrow> py_error option \<times> ('d, 'f, 'a) tstate" where
  "start now s =
     (let s1 = s\<lparr>self := (self s)\<lparr>started := True\<rparr>\<rparr>
      in case Timer_start now (cur s1) of
           Inl e \<Rightarrow> (Some e, s1)
         | Inr th \<Rightarrow> (None, s1\<lparr>cur := th\<rparr>))"

definition cancel :: "('d, 'f, 'a) tstate \<Rightarrow> ('d, 'f, 'a) tstate" where
  "cancel s = s\<lparr>cur := Timer_cancel (cur s)\<rparr>"

definition pause :: "datetime \<Rightarrow> ('d, 'f, 'a) tstate \<Rightarrow> py_error option \<times> ('d, 'f, 'a) tstate" where
  "pause now s =
     (case time_remaining now (self s) of
        Inl e \<Rightarrow> (Some e, s)
      | Inr r \<Rightarrow>
          (None, s\<lparr>self := (self s)\<lparr>time_remaining_attr := Some r, paused := True\<rparr>,
                   cur := Timer_cancel (cur s)\<rparr>))"

definition resume :: "datetime \<Rightarrow> ('d, 'f, 'a) tstate \<Rightarrow> py_error option \<times> ('d, 'f, 'a) tstate" where
  "resume now s =
     (case time_remaining now (self s) of
        Inl e \<Rightarrow> (Some e, s)
      | Inr r1 \<Rightarrow>
          (let s1 = s\<lparr>self := (self s)\<lparr>end_time := now + r1\<rparr>\<rparr>
           in case time_remaining now (self s1) of
                Inl e \<Rightarrow> (Some e, s1)
              | Inr r2 \<Rightarrow>
                  (let s2 = s1\<lparr>orphans := cur s1 # orphans s1, cur := Timer r2\<rparr>
                   in case Timer_start now (cur s2) of
                        Inl e \<Rightarrow> (Some e, s2)
                      | Inr th \<Rightarrow> (None, s2\<lparr>cur := th, self := (self s2)\<lparr>paused := False\<rparr>\<rparr>))))"

definition run_action :: "('d, 'f, 'a) tstate \<Rightarrow> py_error option \<times> ('d, 'f, 'a) tstate" where
  "run_action s =
     (let t = (self s)\<lparr>finished := True\<rparr>
      in case action t of
           None \<Rightarrow> (Some TypeError, s\<lparr>self := t\<rparr>)
         | Some f \<Rightarrow> (None, s\<lparr>self := t, calls := calls s @ [(f, t, args t)]\<rparr>))"

subsection \<open>The passing of time\<close>

text \<open>
  When the clock reaches \<open>now\<close>, every thread whose wait is over runs \<^verbatim>\<open>run_action\<close>.
  All calls made at one instant carry the same timer and arguments, so the order in
  which several due threads run does not show.
\<close>

definition fire_cur :: "datetime \<Rightarrow> ('d, 'f, 'a) tstate \<Rightarrow> ('d, 'f, 'a) tstate" where
  "fire_cur now s =
     (if due now (cur s) then
        (case run_action s of (e, s1) \<Rightarrow> s1\<lparr>cur := Timer_ran (e \<noteq> None) (cur s1)\<rparr>)
      else s)"

fun fire_orphans ::
  "datetime \<Rightarrow> py_thread list \<Rightarrow> ('d, 'f, 'a) tstate \<Rightarrow> py_thread list \<times> ('d, 'f, 'a) tstate" where
  "fire_orphans now [] s = ([], s)"
| "fire_orphans now (th # ths) s =
     (if due now th then
        (case run_action s of (e, s1) \<Rightarrow>
           (case fire_orphans now ths s1 of (ths', s2) \<Rightarrow> (Timer_ran (e \<noteq> None) th # ths', s2)))
      else (case fire_orphans now ths s of (ths', s2) \<Rightarrow> (th # ths', s2)))"

definition fire :: "datetime \<Rightarrow> ('d, 'f, 'a) tstate \<Rightarrow> ('d, 'f, 'a) tstate" where
  "fire now s =
     (let s1 = fire_cur now s
      in case fire_orphans now (orphans s1) s1 of (os, s2) \<Rightarrow> s2\<lparr>orphans := os\<rparr>)"

text \<open>
  An execution of one timer: method calls at the current clock value and waits. An
  exception ends the call that raised it and nothing else.
\<close>

datatype event = Start | Pause | Resume | Cancel | Wait nat

fun step :: "event \<Rightarrow> datetime \<times> ('d, 'f, 'a) tstate \<Rightarrow> datetime \<times> ('d, 'f, 'a) tstate" where
  "step Start (now, s) = (now, snd (start now s))"
| "step Pause (now, s) = (now, snd (pause now s))"
| "step Resume (now, s) = (now, snd (resume now s))"
| "step Cancel (now, s) = (now, cancel s)"
| "step (Wait d) (now, s) = (now + int d, fire (now + int d) s)"

fun run :: "event list \<Rightarrow> datetime \<times> ('d, 'f, 'a) tstate \<Rightarrow> datetime \<times> ('d, 'f, 'a) tstate" where
  "run [] c = c"
| "run (e # es) c = run es (step e c)"

text \<open>The timer has been started and is neither paused nor finished.\<close>

definition running :: "('d, 'f, 'a) SimpleTimer \<Rightarrow> bool" where
  "running t \<longleftrightarrow> started t \<and> \<not> paused t \<and> \<not> finished t"

section \<open>Python lists and strings\<close>

text \<open>\<^verbatim>\<open>list.index\<close>: the position of the first equal element; \<open>None\<close> stands for ValueError.\<close>

fun index :: "'a list \<Rightarrow> 'a \<Rightarrow> nat option" where
  "index [] x = None"
| "index (y # ys) x = (if y = x then Some 0 else map_option Suc (index ys x))"

text \<open>\<^verbatim>\<open>list.pop(i)\<close> for \<open>i \<ge> 0\<close>: the element and the list without it, or IndexError.\<close>

definition pop :: "'a list \<Rightarrow> nat \<Rightarrow> py_error + 'a \<times> 'a list" where
  "pop xs i = (if i < length xs then Inr (xs ! i, take i xs @ drop (Suc i) xs) else Inl IndexError)"

text \<open>\<^verbatim>\<open>list.remove(x)\<close>: drops the first equal element, or ValueError.\<close>

definition remove :: "'a list \<Rightarrow> 'a \<Rightarrow> py_error + 'a list" where
  "remove xs x = (if x \<in> set xs then Inr (remove1 x xs) else Inl ValueError)"

text \<open>\<^verbatim>\<open>str\<close> of an integer, and \<^verbatim>\<open>str.zfill\<close>.\<close>

fun str_nat :: "nat \<Rightarrow> string" where
  "str_nat n =
     (if n < 10 then [''0123456789'' ! n]
      else str_nat (n div 10) @ [''0123456789'' ! (n mod 10)])"

definition str_int :: "int \<Rightarrow> string" where
  "str_int i = (if i < 0 then CHR ''-'' # str_nat (nat (- i)) else str_nat (nat i))"

definition zfill :: "nat \<Rightarrow> string \<Rightarrow> string" where
  "zfill w s =
     (case s of
        [] \<Rightarrow> replicate w CHR ''0''
      | c # cs \<Rightarrow>
          if c = CHR ''+'' \<or> c = CHR ''-'' then c # replicate (w - length s) CHR ''0'' @ cs
          else replicate (w - length s) CHR ''0'' @ s)"

section \<open>The remaining-time strings\<close>

text \<open>
  \<^verbatim>\<open>divmod(total_seconds(), 3600)\<close> and \<^verbatim>\<open>divmod(remainder, 60)\<close>, followed by
  \<^verbatim>\<open>int\<close>, on a span given in microseconds: whole hours (rounded down, so negative for
  a negative span), whole minutes and whole seconds of the non-negative remainder.
\<close>

definition hms :: "timedelta \<Rightarrow> int \<times> int \<times> int" where
  "hms us =
     (let hours = us div 3600000000; remainder = us mod 3600000000;
          minutes = remainder div 60000000; seconds = remainder mod 60000000
      in (hours, minutes, seconds div 1000000))"

text \<open>The string built in \<^verbatim>\<open>update_submenus\<close> (and in \<^verbatim>\<open>pause_timer\<close>).\<close>

definition update_submenus_time_str :: "timedelta \<Rightarrow> string" where
  "update_submenus_time_str us =
     (case hms us of (hours, minutes, seconds) \<Rightarrow>
        (let time_str = zfill 2 (str_int minutes) @ '':'' @ zfill 2 (str_int seconds)
         in if hours > 0 then zfill 2 (str_int hours) @ '':'' @ time_str else time_str))"

text \<open>The string built in \<^verbatim>\<open>start_timer\<close>.\<close>

definition start_timer_time_str :: "timedelta \<Rightarrow> string" where
  "start_timer_time_str us =
     (case hms us of (hours, minutes, seconds) \<Rightarrow>
        (let time_str = str_int minutes @ '':'' @ str_int seconds
         in if hours > 0 then str_int hours @ '':'' @ time_str else time_str))"

section \<open>The registry and the menu\<close>

text \<open>
  What the program needs of Python's floats is taken as given: \<^verbatim>\<open>float(text)\<close>
  (\<open>None\<close> when it raises ValueError), \<^verbatim>\<open>d * 60.0\<close>, \<^verbatim>\<open>d < 60\<close>, the texts of
  \<^verbatim>\<open>f"{d}"\<close> and \<^verbatim>\<open>f"{round(d / 60.0, 2)}"\<close>, and \<^verbatim>\<open>timedelta(seconds=d)\<close>, which
  raises for a float that is not a number or is out of range.
\<close>

record 'd float_lib =
  float_of_str :: "string \<Rightarrow> 'd option"
  times_60 :: "'d \<Rightarrow> 'd"
  less_60 :: "'d \<Rightarrow> bool"
  str_float :: "'d \<Rightarrow> string"
  str_round_minutes :: "'d \<Rightarrow> string"
  timedelta_of :: "'d \<Rightarrow> py_error + timedelta"

text \<open>
  Objects are known by reference. A \<^verbatim>\<open>SimpleTimer\<close> defines no \<^verbatim>\<open>__eq__\<close>, so
  \<^verbatim>\<open>index\<close> and \<^verbatim>\<open>remove\<close> compare timers by identity: the lists hold references.
\<close>

type_synonym ref = nat

datatype callable = show_alert_fn | pause_timer_fn | resume_timer_fn | cancel_timer_fn

text \<open>
  A submenu item of the status indicator, with the entries under it: title, action and
  the timer passed to the action.
\<close>

record submenu =
  handle :: nat
  sm_title :: string
  subitems :: "(string \<times> callable \<times> ref) list"

record menu_item =
  item_title :: string
  enabled :: bool

record 'd world =
  clock :: datetime
  heap :: "ref \<Rightarrow> ('d, callable, unit) tstate"
  allocated :: nat
  active_timers :: "ref list"
  timer_submenus :: "submenu list"
  status_indicator :: menu_item
  shown :: "nat list"
  next_handle :: nat
  alerts :: "string list"

definition update_status_indicator :: "'d world \<Rightarrow> 'd world" where
  "update_status_indicator w =
     (let num_timers = length (active_timers w)
      in if num_timers = 0 then
           w\<lparr>status_indicator := (status_indicator w)\<lparr>item_title := ''No active timers'', enabled := False\<rparr>\<rparr>
         else if num_timers = 1 then
           w\<lparr>status_indicator := (status_indicator w)\<lparr>item_title := ''1 active timer''\<rparr>\<rparr>
         else
           w\<lparr>status_indicator := (status_indicator w)\<lparr>item_title := str_nat num_timers @ '' active timers''\<rparr>\<rparr>)"

text \<open>\<^verbatim>\<open>submenu.delete()\<close>: the item leaves the menu.\<close>

definition delete :: "submenu \<Rightarrow> 'd world \<Rightarrow> 'd world" where
  "delete sm w = w\<lparr>shown := removeAll (handle sm) (shown w)\<rparr>"

definition show_alert :: "ref \<Rightarrow> 'd world \<Rightarrow> py_error option \<times> 'd world" where
  "show_alert timer w =
     (case index (active_timers w) timer of
        None \<Rightarrow> (Some ValueError, w)
      | Some i \<Rightarrow>
          (case pop (timer_submenus w) i of
             Inl e \<Rightarrow> (Some e, w)
           | Inr (sm, rest) \<Rightarrow>
               (let w1 = delete sm (w\<lparr>timer_submenus := rest\<rparr>)
                in case remove (active_timers w1) timer of
                     Inl e \<Rightarrow> (Some e, w1)
                   | Inr ts \<Rightarrow>
                       (let w2 = update_status_indicator (w1\<lparr>active_timers := ts\<rparr>)
                        in (None, w2\<lparr>alerts := alerts w2 @
                              [''Your timer for '' @ title (self (heap w2 timer)) @ '' has ended!'']\<rparr>)))))"

definition cancel_timer :: "ref \<Rightarrow> 'd world \<Rightarrow> py_error option \<times> 'd world" where
  "cancel_timer timer w =
     (case index (active_timers w) timer of
        None \<Rightarrow> (Some ValueError, w)
      | Some i \<Rightarrow>
          (case pop (timer_submenus w) i of
             Inl e \<Rightarrow> (Some e, w)
           | Inr (sm, rest) \<Rightarrow>
               (let w1 = delete sm (w\<lparr>timer_submenus := rest\<rparr>);
                    w2 = w1\<lparr>heap := (heap w1)(timer := cancel (heap w1 timer))\<rparr>
                in case remove (active_timers w2) timer of
                     Inl e \<Rightarrow> (Some e, w2)
                   | Inr ts \<Rightarrow> (None, update_status_indicator (w2\<lparr>active_timers := ts\<rparr>)))))"

text \<open>
  The loop of \<^verbatim>\<open>update_submenus\<close>, from position \<open>i\<close> on. An exception ends it; the
  titles written before stay written.
\<close>

fun update_submenus_from :: "nat \<Rightarrow> ref list \<Rightarrow> 'd world \<Rightarrow> py_error option \<times> 'd world" where
  "update_submenus_from i [] w = (None, w)"
| "update_submenus_from i (timer # timers) w =
     (if i < length (timer_submenus w) then
        (let sm = timer_submenus w ! i
         in case time_remaining (clock w) (self (heap w timer)) of
              Inl e \<Rightarrow> (Some e, w)
            | Inr r \<Rightarrow>
                (let time_str = update_submenus_time_str r;
                     time_str = (if paused (self (heap w timer)) then ''Paused, '' @ time_str
                                 else time_str)
                 in case index (sm_title sm) CHR ''('' of
                      None \<Rightarrow> (Some ValueError, w)
                    | Some k \<Rightarrow>
                        update_submenus_from (Suc i) timers
                          (w\<lparr>timer_submenus := (timer_submenus w)
                               [i := sm\<lparr>sm_title := take (k + 1) (sm_title sm) @ time_str @ '' remaining)''\<rparr>]\<rparr>)))
      else (Some IndexError, w))"

definition update_submenus :: "'d world \<Rightarrow> py_error option \<times> 'd world" where
  "update_submenus w = update_submenus_from 0 (active_timers w) w"

text \<open>
  \<^verbatim>\<open>start_timer(item, button, duration)\<close>; \<open>item\<close> is the title of the menu item
  clicked. The constructor raises before anything is registered when the duration has
  no \<^verbatim>\<open>timedelta\<close>. The constructor reads the clock and \<^verbatim>\<open>time_remaining\<close> reads it
  again for the label: \<open>elapsed\<close> is the time that has passed in between, and the
  rest of the call, the start of the thread included, happens at the later time.
\<close>

definition start_timer ::
  "'d float_lib \<Rightarrow> string \<Rightarrow> 'd \<Rightarrow> nat \<Rightarrow> 'd world \<Rightarrow> py_error option \<times> 'd world" where
  "start_timer lib item d elapsed w =
     (let ttl = (if item = ''Custom Timer...'' then
                   (if less_60 lib d then str_float lib d @ '' seconds''
                    else str_round_minutes lib d @ '' minutes'')
                 else item)
      in case timedelta_of lib d of
           Inl e \<Rightarrow> (Some e, w)
         | Inr delta \<Rightarrow>
             (let timer = allocated w;
                  w1 = w\<lparr>heap := (heap w)(timer := init ttl d delta (Some show_alert_fn) None (clock w)),
                         allocated := Suc (allocated w)\<rparr>;
                  w2 = w1\<lparr>active_timers := active_timers w1 @ [timer]\<rparr>;
                  w3 = w2\<lparr>status_indicator := (status_indicator w2)\<lparr>enabled := True\<rparr>\<rparr>;
                  w3' = update_status_indicator w3;
                  w4 = w3'\<lparr>clock := clock w3' + int elapsed\<rparr>
              in case time_remaining (clock w4) (self (heap w4 timer)) of
                   Inl e \<Rightarrow> (Some e, w4)
                 | Inr r \<Rightarrow>
                     (let time_str = start_timer_time_str r;
                          timer_submenu =
                            \<lparr>handle = next_handle w4,
                             sm_title = ttl @ '' ('' @ time_str @ '' remaining)'',
                             subitems = [(''Pause'', pause_timer_fn, timer),
                                         (''Cancel'', cancel_timer_fn, timer)]\<rparr>;
                          w5 = w4\<lparr>shown := shown w4 @ [handle timer_submenu],
                                 next_handle := Suc (next_handle w4)\<rparr>;
                          w6 = w5\<lparr>timer_submenus := timer_submenus w5 @ [timer_submenu]\<rparr>
                      in case start (clock w6) (heap w6 timer) of
                           (e, ts) \<Rightarrow> (e, w6\<lparr>heap := (heap w6)(timer := ts)\<rparr>))))"


text \<open>
  The program after its main block has built the menu, at clock value \<open>now\<close>. No
  timer exists yet: every reference holds the same unused object, of duration \<open>d0\<close>.
\<close>

definition initial :: "datetime \<Rightarrow> 'd \<Rightarrow> 'd world" where
  "initial now d0 =
     \<lparr>clock = now, heap = (\<lambda>_. init [] d0 0 None None now), allocated = 0, active_timers = [],
      timer_submenus = [],
      status_indicator = \<lparr>item_title = ''No active timers'', enabled = False\<rparr>,
      shown = [], next_handle = 0, alerts = []\<rparr>"

section \<open>Predicates used in the statements\<close>

text \<open>
  A thread that will never call its function: its event is set, or it has run. Such a
  thread is not due at any time, whether or not it is started later.
\<close>

definition spent :: "py_thread \<Rightarrow> bool" where
  "spent th \<longleftrightarrow> t_finished th \<or> t_ran th"

definition all_spent :: "('d, 'f, 'a) tstate \<Rightarrow> bool" where
  "all_spent s \<longleftrightarrow> spent (cur s) \<and> list_all spent (orphans s)"

text \<open>The state of a timer with one waiting thread after that thread has called the action.\<close>

definition fired :: "'f \<Rightarrow> ('d, 'f, 'a) tstate \<Rightarrow> ('d, 'f, 'a) tstate" where
  "fired f s = s\<lparr>self := (self s)\<lparr>finished := True\<rparr>, cur := Timer_ran False (cur s),
       calls := calls s @ [(f, (self s)\<lparr>finished := True\<rparr>, args (self s))]\<rparr>"

text \<open>A paused timer has its thread cancelled and its remaining time stored.\<close>

definition pause_inv :: "('d, 'f, 'a) tstate \<Rightarrow> bool" where
  "pause_inv s \<longleftrightarrow>
     (paused (self s) \<longrightarrow> t_finished (cur s) \<and> time_remaining_attr (self s) \<noteq> None)"

text \<open>The timer is paused and, unless finished, holds \<open>r\<close> as its stored remaining time.\<close>

definition captured :: "timedelta \<Rightarrow> ('d, 'f, 'a) tstate \<Rightarrow> bool" where
  "captured r s \<longleftrightarrow>
     paused (self s) \<and> (finished (self s) \<or> time_remaining_attr (self s) = Some r)"

text \<open>
  In the execution \<open>es\<close> from \<open>c\<close>, \<^verbatim>\<open>resume\<close> is only called on a paused timer, as its
  contract asks.
\<close>

fun resumes_paused :: "event list \<Rightarrow> datetime \<times> ('d, 'f, 'a) tstate \<Rightarrow> bool" where
  "resumes_paused [] c = True"
| "resumes_paused (e # es) c =
     ((e = Resume \<longrightarrow> paused (self (snd c))) \<and> resumes_paused es (step e c))"

text \<open>
  No replaced thread can call the action any more, and the thread of a paused timer
  cannot either.
\<close>

definition tidy :: "('d, 'f, 'a) tstate \<Rightarrow> bool" where
  "tidy s \<longleftrightarrow> list_all spent (orphans s) \<and> (paused (self s) \<longrightarrow> spent (cur s))"

text \<open>The timers and their display handles, position by position.\<close>

definition pairs :: "'d world \<Rightarrow> (ref \<times> submenu) list" where
  "pairs w = zip (active_timers w) (timer_submenus w)"

text \<open>
  The registry as \<^verbatim>\<open>start_timer\<close> builds it: as many submenus as timers, every timer
  registered once, under a reference that has been allocated, and every submenu holding
  the entries made for the timer at its position.
\<close>

definition registry_ok :: "'d world \<Rightarrow> bool" where
  "registry_ok w \<longleftrightarrow>
     length (active_timers w) = length (timer_submenus w) \<and>
     distinct (active_timers w) \<and>
     list_all (\<lambda>r. r < allocated w) (active_timers w) \<and>
     list_all (\<lambda>(r, sm). list_all (\<lambda>(t, f, a). a = r) (subitems sm)) (pairs w)"


section \<open>The texts \<^verbatim>\<open>float\<close> converts, and \<^verbatim>\<open>timedelta\<close>\<close>


























section \<open>The menu host\<close>




section \<open>A float library and a registry for worked examples\<close>

text \<open>
  The floats with a whole-number value, each standing for itself as an integer: the
  text of \<^verbatim>\<open>f"{d}"\<close> ends in \<^verbatim>\<open>.0\<close>, \<^verbatim>\<open>round(d / 60.0, 2)\<close> is the nearest hundredth
  (a whole number of seconds is never halfway between two), printed without a trailing
  zero, and \<^verbatim>\<open>timedelta\<close> accepts less than a thousand million days. Of the texts
  \<^verbatim>\<open>float\<close> accepts this library knows the plain decimal numerals only. It serves the
  examples; no general statement depends on it.
\<close>

fun nat_of_digits :: "nat \<Rightarrow> string \<Rightarrow> nat option" where
  "nat_of_digits acc [] = Some acc"
| "nat_of_digits acc (c # cs) =
     (case index ''0123456789'' c of
        None \<Rightarrow> None
      | Some k \<Rightarrow> nat_of_digits (10 * acc + k) cs)"

definition str_hundredths :: "nat \<Rightarrow> string" where
  "str_hundredths h =
     str_nat (h div 100) @ ''.'' @
       (if h mod 10 = 0 then str_nat (h mod 100 div 10)
        else str_nat (h mod 100 div 10) @ str_nat (h mod 10))"

definition whole_floats :: "int float_lib" where
  "whole_floats =
     \<lparr>float_of_str = (\<lambda>s. if s = [] then None else map_option int (nat_of_digits 0 s)),
      times_60 = (\<lambda>d. d * 60),
      less_60 = (\<lambda>d. d < 60),
      str_float = (\<lambda>d. str_int d @ ''.0''),
      str_round_minutes = (\<lambda>d. if d < 0 then CHR ''-'' # str_hundredths (nat ((- d * 100 + 30) div 60))
                                 else str_hundredths (nat ((d * 100 + 30) div 60))),
      timedelta_of = (\<lambda>d. if - 86400 * 999999999 \<le> d \<and> d < 86400 * 1000000000
                            then Inr (d * 1000000) else Inl OverflowError)\<rparr>"

text \<open>The summary label as the specification words it: none, one, or \<open>N\<close> active timers.\<close>

definition summary_label :: "nat \<Rightarrow> string" where
  "summary_label n =
     (if n = 0 then ''No active timers'' else if n = 1 then ''1 active timer''
      else str_nat n @ '' active timers'')"

text \<open>Three timers started from the menu item \<^verbatim>\<open>5 minutes\<close>: all three have the same title.\<close>

definition three_timers :: "int world" where
  "three_timers =
     snd (start_timer whole_floats ''5 minutes'' 300 1
       (snd (start_timer whole_floats ''5 minutes'' 300 1
         (snd (start_timer whole_floats ''5 minutes'' 300 1 (initial 0 0))))))"



text \<open>A timer of five time units with an action and no arguments, started at time 0.\<close>

definition tea :: "(int, string, nat) tstate" where
  "tea = snd (start 0 (init ''tea'' 5 5 (Some ''show_alert'') None 0))"

section \<open>Properties\<close>

declare str_nat.simps [simp del]

lemmas timer_defs = tea_def init_def start_def pause_def cancel_def resume_def time_remaining_def
  fire_def fire_cur_def run_action_def due_def Timer_def Timer_start_def Timer_cancel_def
  Timer_ran_def running_def pending_def Let_def

lemma run_action_self: "self (snd (run_action s)) = (self s)\<lparr>finished := True\<rparr>"
  by (simp add: run_action_def Let_def split: option.split)

lemma run_action_frame:
  "cur (snd (run_action s)) = cur s" "orphans (snd (run_action s)) = orphans s"
  by (simp_all add: run_action_def Let_def split: option.split)

lemma fire_orphans_self:
  "self (snd (fire_orphans now ths s)) = self s \<or>
   self (snd (fire_orphans now ths s)) = (self s)\<lparr>finished := True\<rparr>"
proof (induction ths arbitrary: s)
  case Nil
  then show ?case by simp
next
  case (Cons th ths)
  show ?case
  proof (cases "due now th")
    case True
    obtain e s1 where r: "run_action s = (e, s1)" by (cases "run_action s")
    then have s1: "self s1 = (self s)\<lparr>finished := True\<rparr>"
      using run_action_self [of s] by simp
    from Cons.IH [of s1] s1 True r show ?thesis
      by (auto split: prod.splits)
  next
    case False
    with Cons.IH [of s] show ?thesis by (auto split: prod.splits)
  qed
qed

lemma fire_orphans_cur: "cur (snd (fire_orphans now ths s)) = cur s"
proof (induction ths arbitrary: s)
  case Nil
  then show ?case by simp
next
  case (Cons th ths)
  show ?case
  proof (cases "due now th")
    case True
    obtain e s1 where r: "run_action s = (e, s1)" by (cases "run_action s")
    then have "cur s1 = cur s" using run_action_frame(1) [of s] by simp
    with Cons.IH [of s1] True r show ?thesis by (auto split: prod.splits)
  next
    case False
    with Cons.IH [of s] show ?thesis by (auto split: prod.splits)
  qed
qed

lemma fire_cur_self:
  "self (fire_cur now s) = self s \<or> self (fire_cur now s) = (self s)\<lparr>finished := True\<rparr>"
  using run_action_self [of s] by (auto simp: fire_cur_def split: prod.splits)

lemma fire_self:
  "self (fire now s) = self s \<or> self (fire now s) = (self s)\<lparr>finished := True\<rparr>"
proof -
  let ?s1 = "fire_cur now s"
  obtain os s2 where f: "fire_orphans now (orphans ?s1) ?s1 = (os, s2)"
    by (cases "fire_orphans now (orphans ?s1) ?s1")
  have "self (fire now s) = self s2" using f by (simp add: fire_def Let_def)
  moreover have "self s2 = self ?s1 \<or> self s2 = (self ?s1)\<lparr>finished := True\<rparr>"
    using fire_orphans_self [of now "orphans ?s1" ?s1] f by simp
  ultimately show ?thesis using fire_cur_self [of now s] by auto
qed

text \<open>
  Claim C1. A started timer that is neither paused nor finished is paused and resumed at
  the same clock value: both calls return normally, \<open>time_remaining\<close> is what it was,
  the timer is running again with the end time it had, and a new thread waits for
  exactly that end time.
\<close>

theorem pause_resume_roundtrip:
  assumes "running (self s)"
  shows "fst (pause now s) = None \<and> fst (resume now (snd (pause now s))) = None \<and>
         time_remaining now (self (snd (resume now (snd (pause now s))))) = time_remaining now (self s) \<and>
         running (self (snd (resume now (snd (pause now s))))) \<and>
         end_time (self (snd (resume now (snd (pause now s))))) = end_time (self s) \<and>
         pending (cur (snd (resume now (snd (pause now s))))) \<and>
         deadline (cur (snd (resume now (snd (pause now s))))) = end_time (self s)"
  using assms
  by (simp add: running_def pause_def resume_def time_remaining_def Let_def Timer_start_def
      Timer_def pending_def)

theorem pause_resume_roundtrip_witness:
  "running (self tea) \<and>
   time_remaining 2 (self tea) = Inr 3 \<and>
   time_remaining 2 (self (snd (resume 2 (snd (pause 2 tea))))) = Inr 3 \<and>
   running (self (snd (resume 2 (snd (pause 2 tea))))) \<and>
   pending (cur (snd (resume 2 (snd (pause 2 tea)))))"
proof -
  have r: "running (self tea)" by (simp add: timer_defs)
  have t: "time_remaining 2 (self tea) = Inr 3" by (simp add: timer_defs)
  from pause_resume_roundtrip [OF r, of 2] r t show ?thesis by simp
qed

lemma spent_not_due: "spent th \<Longrightarrow> \<not> due now th"
  by (auto simp: spent_def due_def)

lemma fire_orphans_spent: "list_all spent ths \<Longrightarrow> fire_orphans now ths s = (ths, s)"
  by (induction ths arbitrary: s) (auto simp: spent_not_due)

lemma fire_spent: "all_spent s \<Longrightarrow> fire now s = s"
  by (simp add: fire_def fire_cur_def all_spent_def spent_not_due fire_orphans_spent)

lemma step_spent:
  assumes "all_spent s" "e \<noteq> Resume"
  shows "all_spent (snd (step e (now, s))) \<and> calls (snd (step e (now, s))) = calls s \<and>
         finished (self (snd (step e (now, s)))) = finished (self s) \<and>
         end_time (self (snd (step e (now, s)))) = end_time (self s)"
proof (cases e)
  case Start
  with assms show ?thesis
    by (auto simp: start_def Let_def Timer_start_def all_spent_def spent_def)
next
  case Pause
  with assms show ?thesis
    by (auto simp: pause_def Timer_cancel_def all_spent_def spent_def split: sum.splits)
next
  case Resume
  with assms show ?thesis by simp
next
  case Cancel
  with assms show ?thesis
    by (auto simp: cancel_def Timer_cancel_def all_spent_def spent_def)
next
  case (Wait d)
  with assms show ?thesis by (simp add: fire_spent)
qed

lemma run_spent:
  "all_spent s \<Longrightarrow> Resume \<notin> set es \<Longrightarrow>
   all_spent (snd (run es (now, s))) \<and> calls (snd (run es (now, s))) = calls s \<and>
   finished (self (snd (run es (now, s)))) = finished (self s) \<and>
   end_time (self (snd (run es (now, s)))) = end_time (self s)"
proof (induction es arbitrary: now s)
  case Nil
  then show ?case by simp
next
  case (Cons e es)
  obtain now1 s1 where st: "step e (now, s) = (now1, s1)" by (cases "step e (now, s)")
  have e: "e \<noteq> Resume" and es: "Resume \<notin> set es" using Cons.prems(2) by auto
  have s1: "all_spent s1 \<and> calls s1 = calls s \<and> finished (self s1) = finished (self s) \<and>
     end_time (self s1) = end_time (self s)"
    using step_spent [OF Cons.prems(1) e, of now] st by simp
  with Cons.IH [of s1 now1] es st show ?case by simp
qed

lemma run_waits_spent:
  "all_spent s \<Longrightarrow> run (map Wait ds) (now, s) = (now + int (sum_list ds), s)"
  by (induction ds arbitrary: now) (simp_all add: fire_spent)

lemma fire_single:
  assumes "orphans s = []" "action (self s) = Some f"
  shows "fire now s = (if due now (cur s) then fired f s else s)"
  using assms by (simp add: fire_def fire_cur_def run_action_def fired_def Let_def)

lemma fired_spent: "orphans s = [] \<Longrightarrow> all_spent (fired f s)"
  by (simp add: fired_def all_spent_def spent_def Timer_ran_def)

lemma run_waits_single:
  assumes "orphans s = []" "action (self s) = Some f" "pending (cur s)"
  shows "run (map Wait ds) (now, s) =
     (now + int (sum_list ds),
      if ds \<noteq> [] \<and> deadline (cur s) \<le> now + int (sum_list ds) then fired f s else s)"
  using assms
proof (induction ds arbitrary: now)
  case Nil
  then show ?case by simp
next
  case (Cons d ds)
  show ?case
  proof (cases "due (now + int d) (cur s)")
    case True
    then have dl: "deadline (cur s) \<le> now + int d" by (simp add: due_def)
    have "run (map Wait (d # ds)) (now, s) = run (map Wait ds) (now + int d, fired f s)"
      using True Cons.prems by (simp add: fire_single)
    also have "\<dots> = (now + int d + int (sum_list ds), fired f s)"
      using run_waits_spent [OF fired_spent [OF Cons.prems(1)]] by simp
    finally show ?thesis using dl by (simp add: add.assoc)
  next
    case False
    then have dl: "\<not> deadline (cur s) \<le> now + int d"
      using Cons.prems(3) by (simp add: due_def pending_def)
    have "run (map Wait (d # ds)) (now, s) = run (map Wait ds) (now + int d, s)"
      using False Cons.prems by (simp add: fire_single)
    also have "\<dots> = (now + int d + int (sum_list ds),
        if ds \<noteq> [] \<and> deadline (cur s) \<le> now + int d + int (sum_list ds) then fired f s else s)"
      using Cons.IH [OF Cons.prems] by simp
    finally show ?thesis using dl by (auto simp: add.assoc)
  qed
qed

lemma start_init:
  "start now1 (init ttl d delta (Some f) as now0) =
     (None, (init ttl d delta (Some f) as now0)
        \<lparr>self := (self (init ttl d delta (Some f) as now0))\<lparr>started := True\<rparr>,
         cur := (Timer delta)\<lparr>t_started := True, deadline := now1 + delta\<rparr>\<rparr>)"
  by (simp add: start_def init_def Timer_start_def Timer_def Let_def)

text \<open>
  Claim C3. A timer is created with an action, started, and then only time passes, in
  any number of waits that together reach its duration: the action has been called
  exactly once, with the timer itself and the stored arguments, and the timer it was
  given is finished and has zero time remaining.
\<close>

theorem natural_expiry_calls_once:
  assumes "ds \<noteq> []" "delta \<le> int (sum_list ds)"
  shows "calls (snd (run (map Wait ds) (now1, snd (start now1 (init ttl d delta (Some f) as now0))))) =
           [(f, self (snd (run (map Wait ds) (now1, snd (start now1 (init ttl d delta (Some f) as now0))))),
             (case as of None \<Rightarrow> [] | Some xs \<Rightarrow> xs))] \<and>
         finished (self (snd (run (map Wait ds) (now1, snd (start now1 (init ttl d delta (Some f) as now0)))))) \<and>
         time_remaining (fst (run (map Wait ds) (now1, snd (start now1 (init ttl d delta (Some f) as now0)))))
           (self (snd (run (map Wait ds) (now1, snd (start now1 (init ttl d delta (Some f) as now0)))))) = Inr 0"
proof -
  let ?s1 = "snd (start now1 (init ttl d delta (Some f) as now0))"
  have o: "orphans ?s1 = []" and a: "action (self ?s1) = Some f" and p: "pending (cur ?s1)"
    and dl: "deadline (cur ?s1) = now1 + delta" and c: "calls ?s1 = []"
    and ar: "args (self ?s1) = (case as of None \<Rightarrow> [] | Some xs \<Rightarrow> xs)"
    by (simp_all add: start_init) (simp_all add: init_def Timer_def pending_def)
  have "run (map Wait ds) (now1, ?s1) = (now1 + int (sum_list ds), fired f ?s1)"
    using run_waits_single [OF o a p, of ds now1] assms dl by simp
  then show ?thesis
    using c ar by (simp add: fired_def time_remaining_def)
qed

theorem natural_expiry_calls_once_witness:
  "[2, 3] \<noteq> ([] :: nat list) \<and> (5 :: int) \<le> int (sum_list [2, 3]) \<and>
   calls (snd (run (map Wait [2, 3]) (0, tea))) =
     [(''show_alert'', self (snd (run (map Wait [2, 3]) (0, tea))), [])] \<and>
   finished (self (snd (run (map Wait [2, 3]) (0, tea))))"
  using natural_expiry_calls_once [of "[2, 3]" 5 0 "''tea''" "5::int" "''show_alert''"
      "None :: nat list option" 0]
  by (simp add: tea_def)

lemma before_expiry_no_call:
  assumes "int (sum_list ds) < delta"
  shows "calls (snd (run (map Wait ds) (now1, snd (start now1 (init ttl d delta (Some f) as now0))))) = []"
proof -
  let ?s1 = "snd (start now1 (init ttl d delta (Some f) as now0))"
  have o: "orphans ?s1 = []" and a: "action (self ?s1) = Some f" and p: "pending (cur ?s1)"
    and dl: "deadline (cur ?s1) = now1 + delta" and c: "calls ?s1 = []"
    by (simp_all add: start_init) (simp_all add: init_def Timer_def pending_def)
  have "run (map Wait ds) (now1, ?s1) = (now1 + int (sum_list ds), ?s1)"
    using run_waits_single [OF o a p, of ds now1] assms dl by simp
  then show ?thesis using c by simp
qed

lemma fire_cur_finished: "t_finished (cur s) \<Longrightarrow> cur (fire now s) = cur s"
proof -
  assume tf: "t_finished (cur s)"
  then have fc: "fire_cur now s = s" by (simp add: fire_cur_def due_def)
  obtain os s2 where f: "fire_orphans now (orphans s) s = (os, s2)"
    by (cases "fire_orphans now (orphans s) s")
  then have "cur s2 = cur s" using fire_orphans_cur [of now "orphans s" s] by simp
  then show ?thesis using fc f by (simp add: fire_def)
qed

lemma fire_paused:
  "paused (self (fire now s)) = paused (self s)"
  "time_remaining_attr (self (fire now s)) = time_remaining_attr (self s)"
  "end_time (self (fire now s)) = end_time (self s)"
  "finished (self s) \<Longrightarrow> finished (self (fire now s))"
  using fire_self [of now s] by auto

lemma step_pause_inv: "pause_inv s \<Longrightarrow> pause_inv (snd (step e (now, s)))"
proof (cases e)
  case Start
  assume "pause_inv s"
  with Start show ?thesis
    by (auto simp: pause_inv_def start_def Let_def Timer_start_def)
next
  case Pause
  assume "pause_inv s"
  with Pause show ?thesis
    by (auto simp: pause_inv_def pause_def Timer_cancel_def split: sum.splits)
next
  case Resume
  assume "pause_inv s"
  with Resume show ?thesis
    by (auto simp: pause_inv_def resume_def Let_def Timer_start_def Timer_def time_remaining_def
        split: sum.splits if_splits option.splits)
next
  case Cancel
  assume "pause_inv s"
  with Cancel show ?thesis
    by (auto simp: pause_inv_def cancel_def Timer_cancel_def)
next
  case (Wait d)
  assume "pause_inv s"
  with Wait show ?thesis
    by (auto simp: pause_inv_def fire_paused fire_cur_finished)
qed

lemma run_pause_inv: "pause_inv s \<Longrightarrow> pause_inv (snd (run es (now, s)))"
proof (induction es arbitrary: now s)
  case Nil
  then show ?case by simp
next
  case (Cons e es)
  obtain now1 s1 where st: "step e (now, s) = (now1, s1)" by (cases "step e (now, s)")
  then have "pause_inv s1" using step_pause_inv [OF Cons.prems, of e now] by simp
  with Cons.IH [of s1 now1] st show ?case by simp
qed

lemma init_pause_inv: "pause_inv (init ttl d delta act as now)"
  by (simp add: pause_inv_def init_def)

text \<open>
  Claim C9, as amended. In every state a timer can reach from its creation, by any calls
  and waits, in which it is paused and not finished, \<open>pause\<close> returns normally and
  changes nothing: no attribute, no thread, no call of the action.
\<close>

theorem pause_idempotent:
  assumes "run es (now0, init ttl d delta act as now0) = (now, s)"
    and "paused (self s)" and "\<not> finished (self s)"
  shows "pause now s = (None, s)"
proof -
  have "pause_inv s"
    using run_pause_inv [OF init_pause_inv, of es now0 ttl d delta act as now0] assms(1) by simp
  with assms(2) obtain r where r: "time_remaining_attr (self s) = Some r" and tf: "t_finished (cur s)"
    by (auto simp: pause_inv_def)
  have "Timer_cancel (cur s) = cur s" using tf by (simp add: Timer_cancel_def)
  moreover have "(self s)\<lparr>time_remaining_attr := Some r, paused := True\<rparr> = self s"
    using r assms(2) by simp
  ultimately show ?thesis
    using r assms(2,3) by (simp add: pause_def time_remaining_def)
qed

theorem pause_idempotent_witness:
  "paused (self (snd (run [Start, Wait 2, Pause, Wait 7] (0, init ''tea'' (5::int) 5 (Some ''show_alert'') (None :: nat list option) 0)))) \<and>
   \<not> finished (self (snd (run [Start, Wait 2, Pause, Wait 7] (0, init ''tea'' (5::int) 5 (Some ''show_alert'') (None :: nat list option) 0)))) \<and>
   pause 9 (snd (run [Start, Wait 2, Pause, Wait 7] (0, init ''tea'' (5::int) 5 (Some ''show_alert'') (None :: nat list option) 0))) =
     (None, snd (run [Start, Wait 2, Pause, Wait 7] (0, init ''tea'' (5::int) 5 (Some ''show_alert'') (None :: nat list option) 0)))"
proof -
  let ?c = "run [Start, Wait 2, Pause, Wait 7] (0, init ''tea'' (5::int) 5 (Some ''show_alert'') (None :: nat list option) 0)"
  have c: "?c = (9, snd ?c)" by (simp add: timer_defs)
  have p: "paused (self (snd ?c))" by (simp add: timer_defs)
  have f: "\<not> finished (self (snd ?c))" by (simp add: timer_defs)
  from pause_idempotent [OF c p f] p f show ?thesis by simp
qed

text \<open>
  Claim C9 as first stated fails for a timer that is finished as well as paused: after
  a resume while running, a pause and the expiry of the replaced thread, a second
  \<open>pause\<close> stores zero over the five time units the first one had captured.
\<close>

theorem pause_overwrites_captured_time:
  "paused (self (snd (run [Start, Resume, Pause, Wait 10]
     (0, init ''tea'' (5::int) 5 (Some ''show_alert'') (None :: nat list option) 0)))) \<and>
   time_remaining_attr (self (snd (run [Start, Resume, Pause, Wait 10]
     (0, init ''tea'' (5::int) 5 (Some ''show_alert'') (None :: nat list option) 0)))) = Some 5 \<and>
   time_remaining_attr (self (snd (pause 10 (snd (run [Start, Resume, Pause, Wait 10]
     (0, init ''tea'' (5::int) 5 (Some ''show_alert'') (None :: nat list option) 0)))))) = Some 0"
  by (simp add: timer_defs)

lemma step_captured:
  assumes "captured r s" "e \<noteq> Resume"
  shows "captured r (snd (step e (now, s)))"
proof (cases e)
  case Start
  with assms show ?thesis by (auto simp: captured_def start_def Let_def split: sum.splits)
next
  case Pause
  with assms show ?thesis
    by (auto simp: captured_def pause_def time_remaining_def split: sum.splits if_splits)
next
  case Resume
  with assms show ?thesis by simp
next
  case Cancel
  with assms show ?thesis by (auto simp: captured_def cancel_def)
next
  case (Wait d)
  with assms show ?thesis by (auto simp: captured_def fire_paused)
qed

lemma run_captured:
  "captured r s \<Longrightarrow> Resume \<notin> set es \<Longrightarrow> captured r (snd (run es (now, s)))"
proof (induction es arbitrary: now s)
  case Nil
  then show ?case by simp
next
  case (Cons e es)
  obtain now1 s1 where st: "step e (now, s) = (now1, s1)" by (cases "step e (now, s)")
  have e: "e \<noteq> Resume" and es: "Resume \<notin> set es" using Cons.prems(2) by auto
  have "captured r s1" using step_captured [OF Cons.prems(1) e, of now] st by simp
  with Cons.IH [of s1 now1] es st show ?case by simp
qed

text \<open>
  Claim C2. For a timer that is not paused, \<open>time_remaining\<close> is zero when it is
  finished and otherwise the end time minus the current time. Once it is paused, and for
  as long as it is not resumed, \<open>time_remaining\<close> is zero when it is finished and
  otherwise the value it had at the moment of the pause, whatever time passes.
\<close>

theorem time_remaining_by_state:
  assumes "\<not> paused (self s)" and "Resume \<notin> set es"
  shows "time_remaining now (self s) =
           Inr (if finished (self s) then 0 else end_time (self s) - now) \<and>
         paused (self (snd (run es (now, snd (pause now s))))) \<and>
         time_remaining (fst (run es (now, snd (pause now s))))
             (self (snd (run es (now, snd (pause now s))))) =
           Inr (if finished (self (snd (run es (now, snd (pause now s))))) then 0
                else if finished (self s) then 0 else end_time (self s) - now)"
proof -
  let ?r = "if finished (self s) then 0 else end_time (self s) - now"
  have tr: "time_remaining now (self s) = Inr ?r"
    using assms(1) by (simp add: time_remaining_def)
  then have "captured ?r (snd (pause now s))"
    by (simp add: pause_def captured_def)
  then have "captured ?r (snd (run es (now, snd (pause now s))))"
    using assms(2) by (rule run_captured)
  then show ?thesis using tr
    by (auto simp: captured_def time_remaining_def)
qed

theorem time_remaining_by_state_witness:
  "\<not> paused (self tea) \<and> Resume \<notin> set [Wait 10, Cancel, Pause] \<and>
   time_remaining 2 (self tea) = Inr 3 \<and>
   paused (self (snd (run [Wait 10, Cancel, Pause] (2, snd (pause 2 tea))))) \<and>
   time_remaining (fst (run [Wait 10, Cancel, Pause] (2, snd (pause 2 tea))))
     (self (snd (run [Wait 10, Cancel, Pause] (2, snd (pause 2 tea))))) = Inr 3"
proof -
  have p: "\<not> paused (self tea)" by (simp add: timer_defs)
  have e: "Resume \<notin> set [Wait 10, Cancel, Pause]" by simp
  have f: "\<not> finished (self tea)" by (simp add: timer_defs)
  have n: "end_time (self tea) = 5" by (simp add: timer_defs)
  have g: "\<not> finished (self (snd (run [Wait 10, Cancel, Pause] (2, snd (pause 2 tea)))))"
    by (simp add: timer_defs)
  from time_remaining_by_state [OF p e, of 2] p e f n g show ?thesis by simp
qed

lemma step_spent_self:
  assumes "all_spent s" "started (self s)" "e \<noteq> Resume" "e \<noteq> Pause"
  shows "self (snd (step e (now, s))) = self s"
proof (cases e)
  case Start
  with assms show ?thesis by (auto simp: start_def Let_def split: sum.splits)
next
  case Pause
  with assms show ?thesis by simp
next
  case Resume
  with assms show ?thesis by simp
next
  case Cancel
  then show ?thesis by (simp add: cancel_def)
next
  case (Wait d)
  with assms show ?thesis by (simp add: fire_spent)
qed

lemma run_spent_self:
  "all_spent s \<Longrightarrow> started (self s) \<Longrightarrow> Resume \<notin> set es \<Longrightarrow> Pause \<notin> set es \<Longrightarrow>
   self (snd (run es (now, s))) = self s"
proof (induction es arbitrary: now s)
  case Nil
  then show ?case by simp
next
  case (Cons e es)
  obtain now1 s1 where st: "step e (now, s) = (now1, s1)" by (cases "step e (now, s)")
  have e: "e \<noteq> Resume" "e \<noteq> Pause" and es: "Resume \<notin> set es" "Pause \<notin> set es"
    using Cons.prems(3,4) by auto
  have "self s1 = self s" using step_spent_self [OF Cons.prems(1,2) e, of now] st by simp
  moreover have "all_spent s1" using step_spent [OF Cons.prems(1) e(1), of now] st by simp
  ultimately show ?case using Cons.IH [of s1 now1] es st Cons.prems(2) by simp
qed

lemma cancel_spent: "list_all spent (orphans s) \<Longrightarrow> all_spent (cancel s)"
  by (simp add: all_spent_def cancel_def Timer_cancel_def spent_def)

lemma fire_cur_frame:
  "orphans (fire_cur now s) = orphans s"
  "paused (self (fire_cur now s)) = paused (self s)"
  by (simp_all add: fire_cur_def run_action_def Let_def split: option.split)

lemma fire_cur_spent: "spent (cur s) \<Longrightarrow> fire_cur now s = s"
  by (simp add: fire_cur_def spent_not_due)

lemma fire_cur_stays_spent: "due now (cur s) \<Longrightarrow> spent (cur (fire_cur now s))"
  by (simp add: fire_cur_def run_action_def Let_def spent_def Timer_ran_def split: option.split)

lemma fire_tidy_eq: "list_all spent (orphans s) \<Longrightarrow> fire now s = fire_cur now s"
  by (simp add: fire_def Let_def fire_cur_frame fire_orphans_spent)

lemma fire_tidy: "tidy s \<Longrightarrow> tidy (fire now s)"
proof -
  assume t: "tidy s"
  then have o: "list_all spent (orphans s)" by (simp add: tidy_def)
  show ?thesis
  proof (cases "due now (cur s)")
    case True
    then show ?thesis
      using o fire_cur_stays_spent [OF True] by (simp add: fire_tidy_eq tidy_def fire_cur_frame)
  next
    case False
    then have "fire_cur now s = s" by (simp add: fire_cur_def)
    then show ?thesis using t o by (simp add: fire_tidy_eq)
  qed
qed

lemma init_tidy: "tidy (init ttl d delta act as now)"
  by (simp add: tidy_def init_def)

lemma step_tidy:
  assumes "tidy s" and "e = Resume \<longrightarrow> paused (self s)"
  shows "tidy (snd (step e (now, s)))"
proof (cases e)
  case Start
  with assms show ?thesis
    by (auto simp: tidy_def start_def Let_def Timer_start_def spent_def)
next
  case Pause
  with assms show ?thesis
    by (auto simp: tidy_def pause_def Timer_cancel_def spent_def split: sum.splits)
next
  case Resume
  with assms show ?thesis
    by (auto simp: tidy_def resume_def Let_def Timer_start_def Timer_def time_remaining_def
        split: sum.splits if_splits option.splits)
next
  case Cancel
  with assms show ?thesis
    by (auto simp: tidy_def cancel_def Timer_cancel_def spent_def)
next
  case (Wait n)
  with assms show ?thesis by (simp add: fire_tidy)
qed

lemma run_tidy:
  "tidy (snd c) \<Longrightarrow> resumes_paused es c \<Longrightarrow> tidy (snd (run es c))"
proof (induction es arbitrary: c)
  case Nil
  then show ?case by simp
next
  case (Cons e es)
  obtain now s where c: "c = (now, s)" by (cases c)
  have g: "e = Resume \<longrightarrow> paused (self s)" and r: "resumes_paused es (step e c)"
    using Cons.prems(2) c by auto
  have "tidy (snd (step e c))" using step_tidy [OF _ g, of now] Cons.prems(1) c by simp
  from Cons.IH [OF this r] show ?case by simp
qed

text \<open>
  Claim C10, as amended. \<open>cancel\<close> changes no attribute of any timer, whatever its
  state, and makes no call of the action. Take a timer that has been resumed only when
  paused and is now started, not paused and not finished. Once cancelled it keeps all
  its attributes through any later waits, starts and cancels: it is never finished, and
  \<open>time_remaining\<close> stays the end time minus the current time, which is negative after
  the end time.
\<close>

theorem cancel_changes_no_attribute:
  assumes "resumes_paused es0 (now0, init ttl d delta act as now0)"
    and "run es0 (now0, init ttl d delta act as now0) = (now, s)"
    and "running (self s)" and "Resume \<notin> set es" and "Pause \<notin> set es"
  shows "self (cancel t) = self t \<and> orphans (cancel t) = orphans t \<and> calls (cancel t) = calls t \<and>
         self (snd (run es (now, cancel s))) = self s \<and>
         time_remaining (fst (run es (now, cancel s))) (self (snd (run es (now, cancel s)))) =
           Inr (end_time (self s) - fst (run es (now, cancel s)))"
proof -
  have "tidy s"
    using run_tidy [OF _ assms(1)] assms(2) by (simp add: init_tidy)
  then have o: "list_all spent (orphans s)" by (simp add: tidy_def)
  have st: "started (self (cancel s))" using assms(3) by (simp add: running_def cancel_def)
  have "self (snd (run es (now, cancel s))) = self (cancel s)"
    using run_spent_self [OF cancel_spent [OF o] st assms(4,5)] .
  then show ?thesis using assms(3) by (simp add: cancel_def running_def time_remaining_def)
qed

theorem cancel_changes_no_attribute_witness:
  "resumes_paused [Start, Wait 1, Pause, Wait 1, Resume]
     (0, init ''tea'' (5::int) 5 (Some ''show_alert'') (None :: nat list option) 0) \<and>
   running (self (snd (run [Start, Wait 1, Pause, Wait 1, Resume]
     (0, init ''tea'' (5::int) 5 (Some ''show_alert'') (None :: nat list option) 0)))) \<and>
   Resume \<notin> set [Wait 4, Start, Wait 9] \<and> Pause \<notin> set [Wait 4, Start, Wait 9] \<and>
   self (cancel tea) = self tea \<and>
   \<not> finished (self (snd (run [Wait 4, Start, Wait 9] (2, cancel (snd (run [Start, Wait 1, Pause, Wait 1, Resume]
     (0, init ''tea'' (5::int) 5 (Some ''show_alert'') (None :: nat list option) 0))))))) \<and>
   time_remaining 15 (self (snd (run [Wait 4, Start, Wait 9] (2, cancel (snd (run [Start, Wait 1, Pause, Wait 1, Resume]
     (0, init ''tea'' (5::int) 5 (Some ''show_alert'') (None :: nat list option) 0))))))) = Inr (- 9)"
proof -
  let ?c = "run [Start, Wait 1, Pause, Wait 1, Resume]
     (0, init ''tea'' (5::int) 5 (Some ''show_alert'') (None :: nat list option) 0)"
  have v: "resumes_paused [Start, Wait 1, Pause, Wait 1, Resume]
     (0, init ''tea'' (5::int) 5 (Some ''show_alert'') (None :: nat list option) 0)"
    by (simp add: timer_defs)
  have c: "?c = (2, snd ?c)" by (simp add: timer_defs)
  have r: "running (self (snd ?c))" by (simp add: timer_defs)
  have e: "Resume \<notin> set [Wait 4, Start, Wait 9]" "Pause \<notin> set [Wait 4, Start, Wait 9]" by simp_all
  have n: "end_time (self (snd ?c)) = 6" by (simp add: timer_defs)
  have k: "fst (run [Wait 4, Start, Wait 9] (2, cancel (snd ?c))) = 15" by simp
  from cancel_changes_no_attribute [OF v c r e, of tea] v r e n k show ?thesis
    by (simp add: running_def time_remaining_def)
qed

text \<open>
  Claim C10 as first stated fails for a timer that was resumed while running: the
  thread that \<open>resume\<close> replaced is still waiting, \<open>cancel\<close> does not reach it, and
  when it runs out the cancelled timer is finished and \<open>time_remaining\<close> is zero, not
  the end time minus the current time.
\<close>

theorem cancelled_timer_finishes:
  "running (self (snd (run [Start, Resume, Cancel]
     (0, init ''tea'' (5::int) 5 (Some ''show_alert'') (None :: nat list option) 0)))) \<and>
   finished (self (snd (run [Start, Resume, Cancel, Wait 10]
     (0, init ''tea'' (5::int) 5 (Some ''show_alert'') (None :: nat list option) 0)))) \<and>
   time_remaining 10 (self (snd (run [Start, Resume, Cancel, Wait 10]
     (0, init ''tea'' (5::int) 5 (Some ''show_alert'') (None :: nat list option) 0)))) = Inr 0 \<and>
   end_time (self (snd (run [Start, Resume, Cancel, Wait 10]
     (0, init ''tea'' (5::int) 5 (Some ''show_alert'') (None :: nat list option) 0)))) - 10 = - 5"
  by (simp add: timer_defs)

lemma cancel_without_resume_never_calls:
  assumes "list_all spent (orphans s)" and "Resume \<notin> set es"
  shows "calls (snd (run es (now, cancel s))) = calls s"
  using run_spent [OF cancel_spent [OF assms(1)] assms(2), of now] by (simp add: cancel_def)

text \<open>
  Claim C4. A timer is started, paused after one time unit, cancelled, and then resumed:
  the resumed timer runs out and its action is called. So \<open>cancel\<close> does not keep the
  completion callback from firing when \<open>resume\<close> is called afterwards.
\<close>

theorem cancelled_timer_resumes:
  "calls (snd (run [Start, Wait 1, Pause, Cancel, Resume, Wait 10]
      (0, init ''tea'' (5::int) 5 (Some ''show_alert'') (None :: nat list option) 0))) =
   [(''show_alert'', self (snd (run [Start, Wait 1, Pause, Cancel, Resume, Wait 10]
      (0, init ''tea'' (5::int) 5 (Some ''show_alert'') (None :: nat list option) 0))), [])]"
  by (simp add: timer_defs)

lemma index_None_iff: "index xs x = None \<longleftrightarrow> x \<notin> set xs"
  by (induction xs) auto

lemma index_Some: "index xs x = Some i \<Longrightarrow> i < length xs \<and> xs ! i = x"
  by (induction xs arbitrary: i) (auto split: if_splits)

lemma remove1_index: "index xs x = Some i \<Longrightarrow> remove1 x xs = take i xs @ drop (Suc i) xs"
  by (induction xs arbitrary: i) (auto split: if_splits)

lemma zip_without:
  "length xs = length ys \<Longrightarrow>
   zip (take i xs @ drop (Suc i) xs) (take i ys @ drop (Suc i) ys) =
   take i (zip xs ys) @ drop (Suc i) (zip xs ys)"
  by (simp add: take_zip drop_zip)

lemma filter_fst_notin: "x \<notin> set xs \<Longrightarrow> filter (\<lambda>p. fst p \<noteq> x) (zip xs ys) = zip xs ys"
  by (induction xs arbitrary: ys) (auto simp: zip_Cons1 split: list.splits)

lemma filter_without:
  "length xs = length ys \<Longrightarrow> distinct xs \<Longrightarrow> index xs x = Some i \<Longrightarrow>
   filter (\<lambda>p. fst p \<noteq> x) (zip xs ys) = take i (zip xs ys) @ drop (Suc i) (zip xs ys)"
proof (induction xs ys arbitrary: i rule: list_induct2)
  case Nil
  then show ?case by simp
next
  case (Cons a xs b ys)
  show ?case
  proof (cases "a = x")
    case True
    then have "x \<notin> set xs" and "i = 0" using Cons.prems by auto
    then show ?thesis using True by (simp add: filter_fst_notin)
  next
    case False
    then obtain j where j: "index xs x = Some j" and i: "i = Suc j"
      using Cons.prems(2) by auto
    have "distinct xs" using Cons.prems(1) by simp
    from Cons.IH [OF this j] False i show ?thesis by simp
  qed
qed

lemma update_status_indicator_frame:
  "active_timers (update_status_indicator w) = active_timers w"
  "timer_submenus (update_status_indicator w) = timer_submenus w"
  "allocated (update_status_indicator w) = allocated w"
  "heap (update_status_indicator w) = heap w"
  "clock (update_status_indicator w) = clock w"
  "shown (update_status_indicator w) = shown w"
  "next_handle (update_status_indicator w) = next_handle w"
  "alerts (update_status_indicator w) = alerts w"
  by (simp_all add: update_status_indicator_def Let_def)

lemma cancel_timer_lists:
  assumes "length (active_timers w) = length (timer_submenus w)"
    and "index (active_timers w) timer = Some i"
  shows "fst (cancel_timer timer w) = None"
    and "active_timers (snd (cancel_timer timer w)) =
           take i (active_timers w) @ drop (Suc i) (active_timers w)"
    and "timer_submenus (snd (cancel_timer timer w)) =
           take i (timer_submenus w) @ drop (Suc i) (timer_submenus w)"
    and "allocated (snd (cancel_timer timer w)) = allocated w"
proof -
  have i: "i < length (timer_submenus w)" and m: "timer \<in> set (active_timers w)"
    using assms index_Some [OF assms(2)] index_None_iff [of "active_timers w" timer] by auto
  show "fst (cancel_timer timer w) = None"
    using assms(2) i m
    by (simp add: cancel_timer_def pop_def remove_def delete_def Let_def)
  show "active_timers (snd (cancel_timer timer w)) =
           take i (active_timers w) @ drop (Suc i) (active_timers w)"
    using assms(2) i m remove1_index [OF assms(2)]
    by (simp add: cancel_timer_def pop_def remove_def delete_def Let_def
        update_status_indicator_frame)
  show "timer_submenus (snd (cancel_timer timer w)) =
           take i (timer_submenus w) @ drop (Suc i) (timer_submenus w)"
    using assms(2) i m
    by (simp add: cancel_timer_def pop_def remove_def delete_def Let_def
        update_status_indicator_frame)
  show "allocated (snd (cancel_timer timer w)) = allocated w"
    using assms(2) i m
    by (simp add: cancel_timer_def pop_def remove_def delete_def Let_def
        update_status_indicator_frame)
qed

lemma show_alert_lists:
  assumes "length (active_timers w) = length (timer_submenus w)"
    and "index (active_timers w) timer = Some i"
  shows "fst (show_alert timer w) = None"
    and "active_timers (snd (show_alert timer w)) =
           take i (active_timers w) @ drop (Suc i) (active_timers w)"
    and "timer_submenus (snd (show_alert timer w)) =
           take i (timer_submenus w) @ drop (Suc i) (timer_submenus w)"
    and "allocated (snd (show_alert timer w)) = allocated w"
proof -
  have i: "i < length (timer_submenus w)" and m: "timer \<in> set (active_timers w)"
    using assms index_Some [OF assms(2)] index_None_iff [of "active_timers w" timer] by auto
  show "fst (show_alert timer w) = None"
    using assms(2) i m
    by (simp add: show_alert_def pop_def remove_def delete_def Let_def)
  show "active_timers (snd (show_alert timer w)) =
           take i (active_timers w) @ drop (Suc i) (active_timers w)"
    using assms(2) i m remove1_index [OF assms(2)]
    by (simp add: show_alert_def pop_def remove_def delete_def Let_def
        update_status_indicator_frame)
  show "timer_submenus (snd (show_alert timer w)) =
           take i (timer_submenus w) @ drop (Suc i) (timer_submenus w)"
    using assms(2) i m
    by (simp add: show_alert_def pop_def remove_def delete_def Let_def
        update_status_indicator_frame)
  show "allocated (snd (show_alert timer w)) = allocated w"
    using assms(2) i m
    by (simp add: show_alert_def pop_def remove_def delete_def Let_def
        update_status_indicator_frame)
qed

lemma unregistered:
  fixes w w' :: "'d world"
  assumes ok: "registry_ok w" and i: "index (active_timers w) timer = Some i"
    and a: "active_timers w' = take i (active_timers w) @ drop (Suc i) (active_timers w)"
    and s: "timer_submenus w' = take i (timer_submenus w) @ drop (Suc i) (timer_submenus w)"
    and al: "allocated w' = allocated w"
  shows "pairs w' = filter (\<lambda>p. fst p \<noteq> timer) (pairs w) \<and>
         length (active_timers w') + 1 = length (active_timers w) \<and> registry_ok w'"
proof -
  have len: "length (active_timers w) = length (timer_submenus w)"
    and dist: "distinct (active_timers w)"
    using ok by (simp_all add: registry_ok_def)
  have il: "i < length (active_timers w)" using index_Some [OF i] by simp
  have p: "pairs w' = filter (\<lambda>p. fst p \<noteq> timer) (pairs w)"
    using a s zip_without [OF len, of i] filter_without [OF len dist i] by (simp add: pairs_def)
  have n: "length (active_timers w') + 1 = length (active_timers w)"
    using a il by simp
  have d: "distinct (active_timers w')"
    using a remove1_index [OF i] dist by (metis distinct_remove1)
  have "set (active_timers w') \<subseteq> set (active_timers w)"
    using a set_take_subset [of i "active_timers w"] set_drop_subset [of "Suc i" "active_timers w"]
    by auto
  then have b: "list_all (\<lambda>r. r < allocated w') (active_timers w')"
    using ok al by (auto simp: registry_ok_def list_all_iff)
  have q: "list_all (\<lambda>(r, sm). list_all (\<lambda>(t, f, a). a = r) (subitems sm)) (pairs w')"
    using ok p by (simp add: registry_ok_def list_all_iff)
  have l: "length (active_timers w') = length (timer_submenus w')"
    using a s len by simp
  show ?thesis using p n d b q l by (simp add: registry_ok_def)
qed

text \<open>
  Claim C5. In a registry built by \<^verbatim>\<open>start_timer\<close>, unregistering a registered timer,
  by \<^verbatim>\<open>cancel_timer\<close> or by \<^verbatim>\<open>show_alert\<close>, succeeds and removes exactly the pair of
  that reference: the other timers keep their display handles, in order, there is one
  pair less, and the registry is well formed again. Titles play no part.
\<close>

theorem unregister_keeps_pairing:
  assumes "registry_ok w" and "timer \<in> set (active_timers w)"
  shows "fst (cancel_timer timer w) = None \<and>
         pairs (snd (cancel_timer timer w)) = filter (\<lambda>p. fst p \<noteq> timer) (pairs w) \<and>
         length (active_timers (snd (cancel_timer timer w))) + 1 = length (active_timers w) \<and>
         registry_ok (snd (cancel_timer timer w)) \<and>
         fst (show_alert timer w) = None \<and>
         pairs (snd (show_alert timer w)) = filter (\<lambda>p. fst p \<noteq> timer) (pairs w) \<and>
         length (active_timers (snd (show_alert timer w))) + 1 = length (active_timers w) \<and>
         registry_ok (snd (show_alert timer w))"
proof -
  obtain i where i: "index (active_timers w) timer = Some i"
    using assms(2) index_None_iff [of "active_timers w" timer] by (cases "index (active_timers w) timer") auto
  have len: "length (active_timers w) = length (timer_submenus w)"
    using assms(1) by (simp add: registry_ok_def)
  note c = cancel_timer_lists [OF len i] and a = show_alert_lists [OF len i]
  show ?thesis
    using unregistered [OF assms(1) i c(2) c(3) c(4)] unregistered [OF assms(1) i a(2) a(3) a(4)]
      c(1) a(1) by simp
qed

lemma start_timer_fails:
  "timedelta_of lib d = Inl e \<Longrightarrow> start_timer lib item d elapsed w = (Some e, w)"
  by (simp add: start_timer_def Let_def)

lemma init_time_remaining:
  "time_remaining now' (self (init ttl d delta act as now)) = Inr (now + delta - now')"
  by (simp add: time_remaining_def init_def)

lemma init_start: "fst (start now (init ttl d delta act as now')) = None"
  by (simp add: start_def init_def Timer_start_def Timer_def Let_def)

lemma update_status_indicator_label:
  "status_indicator (update_status_indicator w) =
     (status_indicator w)\<lparr>item_title := summary_label (length (active_timers w)),
        enabled := (length (active_timers w) \<noteq> 0 \<and> enabled (status_indicator w))\<rparr>"
  by (simp add: update_status_indicator_def summary_label_def Let_def)

lemma start_timer_lists:
  assumes "timedelta_of lib d = Inr delta"
  shows "fst (start_timer lib item d elapsed w) = None"
    and "active_timers (snd (start_timer lib item d elapsed w)) = active_timers w @ [allocated w]"
    and "\<exists>ttl. timer_submenus (snd (start_timer lib item d elapsed w)) =
           timer_submenus w @
             [\<lparr>handle = next_handle w,
               sm_title = ttl @ '' ('' @ start_timer_time_str (delta - int elapsed) @ '' remaining)'',
               subitems = [(''Pause'', pause_timer_fn, allocated w),
                           (''Cancel'', cancel_timer_fn, allocated w)]\<rparr>]"
    and "allocated (snd (start_timer lib item d elapsed w)) = Suc (allocated w)"
    and "status_indicator (snd (start_timer lib item d elapsed w)) =
           \<lparr>item_title = summary_label (Suc (length (active_timers w))), enabled = True\<rparr>"
  using assms
  by (simp_all add: start_timer_def Let_def update_status_indicator_frame
      update_status_indicator_label init_time_remaining init_start case_prod_unfold)

lemma initial_ok: "registry_ok (initial now d0)"
  by (simp add: registry_ok_def initial_def pairs_def)

lemma start_timer_ok:
  assumes "registry_ok w"
  shows "registry_ok (snd (start_timer lib item d elapsed w))"
proof (cases "timedelta_of lib d")
  case (Inl e)
  then show ?thesis using assms by (simp add: start_timer_fails)
next
  case (Inr delta)
  note l = start_timer_lists [OF Inr, of item elapsed w]
  from l(3) obtain sm where sm: "timer_submenus (snd (start_timer lib item d elapsed w)) =
           timer_submenus w @ [sm]"
    and si: "subitems sm = [(''Pause'', pause_timer_fn, allocated w),
                           (''Cancel'', cancel_timer_fn, allocated w)]" by auto
  have len: "length (active_timers w) = length (timer_submenus w)"
    and dist: "distinct (active_timers w)"
    and bnd: "list_all (\<lambda>r. r < allocated w) (active_timers w)"
    and prs: "list_all (\<lambda>(r, sm). list_all (\<lambda>(t, f, a). a = r) (subitems sm)) (pairs w)"
    using assms by (simp_all add: registry_ok_def)
  have fresh: "allocated w \<notin> set (active_timers w)"
    using bnd by (auto simp: list_all_iff)
  have p: "pairs (snd (start_timer lib item d elapsed w)) = pairs w @ [(allocated w, sm)]"
    using l(2) sm len by (simp add: pairs_def)
  have b': "list_all (\<lambda>r. r < Suc (allocated w)) (active_timers w)"
    using bnd by (auto simp: list_all_iff)
  show ?thesis
    unfolding registry_ok_def p
    using l(2) l(4) sm len dist fresh b' prs si by simp
qed

lemma three_timers_ok: "registry_ok three_timers"
  unfolding three_timers_def by (intro start_timer_ok initial_ok)

lemma unregister_status:
  assumes "registry_ok w" and "timer \<in> set (active_timers w)"
  shows "status_indicator (snd (cancel_timer timer w)) =
           (status_indicator w)\<lparr>item_title := summary_label (length (active_timers w) - 1),
              enabled := (length (active_timers w) \<noteq> 1 \<and> enabled (status_indicator w))\<rparr>"
    and "status_indicator (snd (show_alert timer w)) =
           (status_indicator w)\<lparr>item_title := summary_label (length (active_timers w) - 1),
              enabled := (length (active_timers w) \<noteq> 1 \<and> enabled (status_indicator w))\<rparr>"
proof -
  obtain i where i: "index (active_timers w) timer = Some i"
    using assms(2) index_None_iff [of "active_timers w" timer]
    by (cases "index (active_timers w) timer") auto
  have len: "length (active_timers w) = length (timer_submenus w)"
    using assms(1) by (simp add: registry_ok_def)
  have il: "i < length (timer_submenus w)" using index_Some [OF i] len by simp
  have n: "length (remove1 timer (active_timers w)) = length (active_timers w) - 1"
    using assms(2) by (simp add: length_remove1)
  have pos: "0 < length (active_timers w)" using assms(2) by (cases "active_timers w") auto
  have one: "length (active_timers w) - 1 \<noteq> 0 \<longleftrightarrow> length (active_timers w) \<noteq> 1"
    using pos by arith
  show "status_indicator (snd (cancel_timer timer w)) =
           (status_indicator w)\<lparr>item_title := summary_label (length (active_timers w) - 1),
              enabled := (length (active_timers w) \<noteq> 1 \<and> enabled (status_indicator w))\<rparr>"
    using i il assms(2) n one
    by (simp add: cancel_timer_def pop_def remove_def delete_def Let_def
        update_status_indicator_label)
  show "status_indicator (snd (show_alert timer w)) =
           (status_indicator w)\<lparr>item_title := summary_label (length (active_timers w) - 1),
              enabled := (length (active_timers w) \<noteq> 1 \<and> enabled (status_indicator w))\<rparr>"
    using i il assms(2) n one
    by (simp add: show_alert_def pop_def remove_def delete_def Let_def
        update_status_indicator_label update_status_indicator_frame)
qed

theorem unregister_keeps_pairing_witness:
  "registry_ok three_timers \<and> 1 \<in> set (active_timers three_timers) \<and>
   map (\<lambda>r. title (self (heap three_timers r))) (active_timers three_timers) =
     [''5 minutes'', ''5 minutes'', ''5 minutes''] \<and>
   map (\<lambda>p. (fst p, handle (snd p))) (pairs three_timers) = [(0, 0), (1, 1), (2, 2)] \<and>
   map (\<lambda>p. (fst p, handle (snd p))) (pairs (snd (cancel_timer 1 three_timers))) = [(0, 0), (2, 2)] \<and>
   map (\<lambda>p. (fst p, handle (snd p))) (pairs (snd (show_alert 1 three_timers))) = [(0, 0), (2, 2)]"
proof -
  have h1: "registry_ok three_timers" by (rule three_timers_ok)
  have h2: "1 \<in> set (active_timers three_timers)" by code_simp
  have t: "map (\<lambda>r. title (self (heap three_timers r))) (active_timers three_timers) =
     [''5 minutes'', ''5 minutes'', ''5 minutes'']" by code_simp
  have p: "map (\<lambda>p. (fst p, handle (snd p))) (pairs three_timers) = [(0, 0), (1, 1), (2, 2)]"
    by code_simp
  have f: "map (\<lambda>p. (fst p, handle (snd p))) (filter (\<lambda>p. fst p \<noteq> 1) (pairs three_timers)) =
     [(0, 0), (2, 2)]"
    by code_simp
  from unregister_keeps_pairing [OF h1 h2] h1 h2 t p f show ?thesis by simp
qed

text \<open>
  Claim C6. \<^verbatim>\<open>update_status_indicator\<close> sets the title to \<^verbatim>\<open>No active timers\<close> and
  disables the item for no timer, to \<^verbatim>\<open>1 active timer\<close> for one, and to the count
  followed by \<^verbatim>\<open>active timers\<close> for more, leaving the item enabled or disabled as it
  was. So after \<^verbatim>\<open>start_timer\<close> the item is enabled and labelled for one timer more,
  and after \<^verbatim>\<open>cancel_timer\<close> or \<^verbatim>\<open>show_alert\<close> it is labelled for one timer less, and
  disabled when that was the last.
\<close>

theorem status_indicator_follows_count:
  assumes "timedelta_of lib d = Inr delta" and "registry_ok w'" and "timer \<in> set (active_timers w')"
  shows "status_indicator (update_status_indicator w) =
           (status_indicator w)\<lparr>item_title :=
              (if length (active_timers w) = 0 then ''No active timers''
               else if length (active_timers w) = 1 then ''1 active timer''
               else str_nat (length (active_timers w)) @ '' active timers''),
            enabled := (length (active_timers w) \<noteq> 0 \<and> enabled (status_indicator w))\<rparr> \<and>
         status_indicator (snd (start_timer lib item d elapsed w)) =
           \<lparr>item_title = summary_label (length (active_timers w) + 1), enabled = True\<rparr> \<and>
         status_indicator (snd (cancel_timer timer w')) =
           (status_indicator w')\<lparr>item_title := summary_label (length (active_timers w') - 1),
              enabled := (length (active_timers w') \<noteq> 1 \<and> enabled (status_indicator w'))\<rparr> \<and>
         status_indicator (snd (show_alert timer w')) =
           (status_indicator w')\<lparr>item_title := summary_label (length (active_timers w') - 1),
              enabled := (length (active_timers w') \<noteq> 1 \<and> enabled (status_indicator w'))\<rparr>"
  using start_timer_lists(5) [OF assms(1), of item elapsed w] unregister_status [OF assms(2,3)]
  by (simp add: update_status_indicator_label) (simp add: summary_label_def)

theorem status_indicator_follows_count_witness:
  "timedelta_of whole_floats 300 = Inr 300000000 \<and> registry_ok three_timers \<and>
   1 \<in> set (active_timers three_timers) \<and>
   status_indicator (update_status_indicator (initial 0 (0::int))) =
     \<lparr>item_title = ''No active timers'', enabled = False\<rparr> \<and>
   status_indicator (snd (start_timer whole_floats ''5 minutes'' 300 1 (initial 0 0))) =
     \<lparr>item_title = ''1 active timer'', enabled = True\<rparr> \<and>
   status_indicator three_timers = \<lparr>item_title = ''3 active timers'', enabled = True\<rparr> \<and>
   status_indicator (snd (cancel_timer 1 three_timers)) =
     \<lparr>item_title = ''2 active timers'', enabled = True\<rparr>"
proof -
  have h1: "timedelta_of whole_floats 300 = Inr 300000000" by (simp add: whole_floats_def)
  have h2: "registry_ok three_timers" by (rule three_timers_ok)
  have h3: "1 \<in> set (active_timers three_timers)" by code_simp
  have i: "active_timers (initial 0 (0::int)) = []"
    "status_indicator (initial 0 (0::int)) = \<lparr>item_title = ''No active timers'', enabled = False\<rparr>"
    by (simp_all add: initial_def)
  have s: "status_indicator three_timers = \<lparr>item_title = ''3 active timers'', enabled = True\<rparr>"
    by code_simp
  have n: "length (active_timers three_timers) = 3" by code_simp
  have l: "summary_label 1 = ''1 active timer''" "summary_label 2 = ''2 active timers''"
    by code_simp+
  from status_indicator_follows_count [OF h1 h2 h3, where w = "initial 0 0"
      and item = "''5 minutes''" and elapsed = 1]
    h1 h2 h3 i s n l show ?thesis by simp
qed














text \<open>
  Claim C7. \<^verbatim>\<open>update_submenus\<close> formats 125 seconds as \<^verbatim>\<open>02:05\<close> and 3725 seconds as
  \<^verbatim>\<open>01:02:05\<close>. \<^verbatim>\<open>start_timer\<close> formats them as \<^verbatim>\<open>2:5\<close> and \<^verbatim>\<open>1:2:5\<close>. The label of a
  new timer of five minutes reads \<^verbatim>\<open>4:59\<close> when a microsecond has passed since its
  creation (\<^verbatim>\<open>5:0\<close> when none has), and that of a timer of 125 seconds reads \<^verbatim>\<open>2:4\<close>
  (\<^verbatim>\<open>2:5\<close> when none has), until \<^verbatim>\<open>update_submenus\<close> rewrites it as \<^verbatim>\<open>02:04\<close>
  (\<^verbatim>\<open>02:05\<close>).
\<close>

theorem start_timer_label_not_padded:
  "start_timer_time_str 125000000 = ''2:5'' \<and>
   start_timer_time_str 3725000000 = ''1:2:5'' \<and>
   update_submenus_time_str 125000000 = ''02:05'' \<and>
   update_submenus_time_str 3725000000 = ''01:02:05'' \<and>
   map sm_title (timer_submenus (snd (start_timer whole_floats ''5 minutes'' 300 1 (initial 0 0)))) =
     [''5 minutes (4:59 remaining)''] \<and>
   map sm_title (timer_submenus (snd (start_timer whole_floats ''5 minutes'' 300 0 (initial 0 0)))) =
     [''5 minutes (5:0 remaining)''] \<and>
   map sm_title (timer_submenus (snd (start_timer whole_floats ''Custom Timer...'' 125 1 (initial 0 0)))) =
     [''2.08 minutes (2:4 remaining)''] \<and>
   map sm_title (timer_submenus (snd (update_submenus
      (snd (start_timer whole_floats ''Custom Timer...'' 125 1 (initial 0 0)))))) =
     [''2.08 minutes (02:04 remaining)''] \<and>
   map sm_title (timer_submenus (snd (start_timer whole_floats ''Custom Timer...'' 125 0 (initial 0 0)))) =
     [''2.08 minutes (2:5 remaining)''] \<and>
   map sm_title (timer_submenus (snd (update_submenus
      (snd (start_timer whole_floats ''Custom Timer...'' 125 0 (initial 0 0)))))) =
     [''2.08 minutes (02:05 remaining)'']"
  by code_simp

end
